theory Spec2Isabelle
  imports Complex_Main "HOL-Library.Multiset"
begin

section \<open>Strings\<close>

text \<open>
  A JavaScript string is a sequence of UTF-16 code units. The model uses \<open>string\<close>
  (a list of \<open>char\<close>), one \<open>char\<close> per code unit, and so covers the texts whose code
  units are all below 256 (ISO 8859-1). The character classes below are the ones the
  regular expressions and the string methods of \<open>controller.ts\<close> use, cut to that range.
\<close>

definition isWhitespace :: "char \<Rightarrow> bool" where
  \<comment> \<open>the class \<open>\s\<close>, which is also what \<open>String.prototype.trim\<close> strips: tab, line feed,
      vertical tab, form feed, carriage return, space, no-break space\<close>
  "isWhitespace c \<longleftrightarrow> c \<in> set [CHR 0x09, CHR 0x0A, CHR 0x0B, CHR 0x0C, CHR 0x0D, CHR 0x20, CHR 0xA0]"

definition isTerminator :: "char \<Rightarrow> bool" where
  \<comment> \<open>the class \<open>[.!?]\<close>\<close>
  "isTerminator c \<longleftrightarrow> c \<in> set ''.!?''"

definition isWordChar :: "char \<Rightarrow> bool" where
  \<comment> \<open>the class \<open>[a-zA-Z0-9']\<close>\<close>
  "isWordChar c \<longleftrightarrow>
     (let n = (of_char c :: nat)
      in (97 \<le> n \<and> n \<le> 122) \<or> (65 \<le> n \<and> n \<le> 90) \<or> (48 \<le> n \<and> n \<le> 57) \<or> n = 39)"

definition toLowerChar :: "char \<Rightarrow> char" where
  \<comment> \<open>\<open>toLowerCase\<close> on one code unit below 256: the letters A to Z, and the capital
      letters of ISO 8859-1 (0xC0 to 0xDE without the multiplication sign 0xD7)\<close>
  "toLowerChar c =
     (let n = (of_char c :: nat)
      in if (65 \<le> n \<and> n \<le> 90) \<or> (192 \<le> n \<and> n \<le> 222 \<and> n \<noteq> 215) then char_of (n + 32) else c)"

definition toLowerCase :: "string \<Rightarrow> string" where
  "toLowerCase s = map toLowerChar s"

definition trim :: "string \<Rightarrow> string" where
  \<comment> \<open>\<open>String.prototype.trim\<close>\<close>
  "trim s = rev (dropWhile isWhitespace (rev (dropWhile isWhitespace s)))"

fun joinWith :: "string \<Rightarrow> string list \<Rightarrow> string" where
  \<comment> \<open>\<open>Array.prototype.join\<close>\<close>
  "joinWith sep [] = []"
| "joinWith sep [x] = x"
| "joinWith sep (x # y # ys) = x @ sep @ joinWith sep (y # ys)"

function collapseWhitespace :: "string \<Rightarrow> string" where
  \<comment> \<open>\<open>text.replace(/\s+/g, " ")\<close>: every maximal run of whitespace becomes one space\<close>
  "collapseWhitespace [] = []"
| "collapseWhitespace (c # cs) =
     (if isWhitespace c then CHR '' '' # collapseWhitespace (dropWhile isWhitespace cs)
      else c # collapseWhitespace cs)"
  by pat_completeness auto
termination
  by (relation "measure length") (auto simp: length_dropWhile_le less_Suc_eq_le)

function matchSentences :: "string \<Rightarrow> string list" where
  \<comment> \<open>\<open>s.match(/[^.!?]+[.!?]+/g)\<close>, the list of matches from left to right (empty where
      JavaScript gives \<open>null\<close>). A match cannot start at a terminator; from any other
      character it is the maximal run without terminators followed by the maximal run of
      terminators, and there is none if the string ends before a terminator\<close>
  "matchSentences [] = []"
| "matchSentences (c # cs) =
     (if isTerminator c then matchSentences cs
      else (let rest = dropWhile (\<lambda>x. \<not> isTerminator x) cs
            in if rest = [] then []
               else (c # takeWhile (\<lambda>x. \<not> isTerminator x) cs @ takeWhile isTerminator rest)
                    # matchSentences (dropWhile isTerminator rest)))"
  by pat_completeness auto
termination
proof (relation "measure length")
  show "wf (measure length)" by simp
next
  fix c :: char and cs :: string
  assume "isTerminator c"
  then show "(cs, c # cs) \<in> measure length" by simp
next
  fix c :: char and cs x :: string
  assume "x = dropWhile (\<lambda>x. \<not> isTerminator x) cs"
  then have "length (dropWhile isTerminator x) \<le> length cs"
    using length_dropWhile_le [of isTerminator x]
      length_dropWhile_le [of "\<lambda>x. \<not> isTerminator x" cs] by simp
  then show "(dropWhile isTerminator x, c # cs) \<in> measure length" by simp
qed

function matchWords :: "string \<Rightarrow> string list" where
  \<comment> \<open>\<open>s.match(/[a-zA-Z0-9']+/g) || []\<close>: the maximal runs of word characters\<close>
  "matchWords [] = []"
| "matchWords (c # cs) =
     (if isWordChar c then (c # takeWhile isWordChar cs) # matchWords (dropWhile isWordChar cs)
      else matchWords cs)"
  by pat_completeness auto
termination
  by (relation "measure length") (auto simp: length_dropWhile_le less_Suc_eq_le)

section \<open>The extractive summarizer\<close>

subsection \<open>The frequency table\<close>

text \<open>
  \<open>freq\<close> is an ordinary object created by \<open>{}\<close> and used as a dictionary. Its own
  properties are the words counted so far; a read of a key that is not an own property
  goes on to \<open>Object.prototype\<close>. Of the properties found there, the only one whose name
  can be a lower-cased run of word characters is \<open>constructor\<close>, the function \<open>Object\<close>.
  The values that can therefore occur in the table and in the running score are
  non-negative whole numbers, the function \<open>Object\<close>, and strings that contain the
  source text of that function (which no conversion turns into a number).
\<close>

datatype jsvalue = Number nat | ObjectFunction | NonNumericString

type_synonym freq_table = "string \<rightharpoonup> jsvalue"

definition getProperty :: "freq_table \<Rightarrow> string \<Rightarrow> jsvalue option" where
  \<comment> \<open>\<open>freq[w]\<close>; \<open>None\<close> is \<open>undefined\<close>\<close>
  "getProperty freq w =
     (case freq w of
        Some v \<Rightarrow> Some v
      | None \<Rightarrow> if w = ''constructor'' then Some ObjectFunction else None)"

definition orZero :: "jsvalue option \<Rightarrow> jsvalue" where
  \<comment> \<open>\<open>v || 0\<close>: \<open>undefined\<close> and the number 0 are falsy, functions and non-empty strings
      are truthy\<close>
  "orZero v = (case v of None \<Rightarrow> Number 0 | Some (Number n) \<Rightarrow> Number n | Some x \<Rightarrow> x)"

fun jsAdd :: "jsvalue \<Rightarrow> jsvalue \<Rightarrow> jsvalue" where
  \<comment> \<open>the operator \<open>+\<close>: addition of two numbers, string concatenation otherwise\<close>
  "jsAdd (Number a) (Number b) = Number (a + b)"
| "jsAdd _ _ = NonNumericString"

definition stop :: "string list" where
  "stop = [''the'', ''is'', ''in'', ''at'', ''of'', ''a'', ''an'', ''and'', ''or'', ''to'', ''for'',
           ''on'', ''with'', ''as'', ''by'', ''it'', ''this'', ''that'', ''from'', ''are'', ''be'',
           ''was'', ''were'', ''will'', ''can'', ''could'']"

definition countWord :: "string \<Rightarrow> freq_table \<Rightarrow> freq_table" where
  \<comment> \<open>the body of the loop \<open>for (const w of words)\<close>\<close>
  "countWord w freq =
     (if w \<in> set stop then freq
      else freq(w \<mapsto> jsAdd (orZero (getProperty freq w)) (Number 1)))"

definition wordFrequencies :: "string list \<Rightarrow> freq_table" where
  "wordFrequencies words = fold countWord words Map.empty"

subsection \<open>Scores\<close>

text \<open>
  A score is a JavaScript number. The quotient of two whole numbers is kept exact, as a
  rational (the code rounds it to the nearest binary64 value); \<open>NaN\<close> is what the
  division gives when the running score has become a string.
\<close>

datatype jsnumber = Finite rat | NaN

definition sentenceWords :: "string \<Rightarrow> string list" where
  "sentenceWords s = matchWords (toLowerCase s)"

definition sentenceScore :: "freq_table \<Rightarrow> string \<Rightarrow> jsnumber" where
  \<comment> \<open>the function mapped over \<open>sentences\<close> to give \<open>scores\<close>\<close>
  "sentenceScore freq s =
     (let sw = sentenceWords s;
          score = fold (\<lambda>w sc. jsAdd sc (orZero (getProperty freq w))) sw (Number 0)
      in case score of
           Number n \<Rightarrow> Finite (of_nat n / of_nat (max 5 (length sw)))
         | _ \<Rightarrow> NaN)"

subsection \<open>Sorting\<close>

text \<open>
  \<open>Array.prototype.sort\<close> with a comparison function: a result that is \<open>NaN\<close> counts as
  \<open>+0\<close>. When the function is consistent on the elements, which asks among other things
  that it is \<open>NaN\<close> on no pair of them, the sort is stable, and is then the same as
  insertion from the right, an element going before the first one it does not compare
  greater than. When the function is not consistent, the language leaves the order of
  the elements to the engine.
\<close>

fun jsSub :: "jsnumber \<Rightarrow> jsnumber \<Rightarrow> jsnumber" where
  "jsSub (Finite x) (Finite y) = Finite (x - y)"
| "jsSub _ _ = NaN"

definition notPositive :: "jsnumber \<Rightarrow> bool" where
  "notPositive v = (case v of NaN \<Rightarrow> True | Finite r \<Rightarrow> r \<le> 0)"

fun insertBy :: "('a \<Rightarrow> 'a \<Rightarrow> jsnumber) \<Rightarrow> 'a \<Rightarrow> 'a list \<Rightarrow> 'a list" where
  "insertBy cmp x [] = [x]"
| "insertBy cmp x (y # ys) =
     (if notPositive (cmp x y) then x # y # ys else y # insertBy cmp x ys)"

definition stableSort :: "('a \<Rightarrow> 'a \<Rightarrow> jsnumber) \<Rightarrow> 'a list \<Rightarrow> 'a list" where
  "stableSort cmp xs = foldr (insertBy cmp) xs []"

record indexed =
  item_s :: string
  item_i :: nat
  item_score :: jsnumber

text \<open>
  The order an engine gives to an array on which the comparison function is not
  consistent is some rearrangement of the array. An engine is represented by the rank it
  assigns to each element of a given array; the array is rearranged by ascending rank.
\<close>

type_synonym engine = "indexed list \<Rightarrow> indexed \<Rightarrow> nat"

definition byScoreDescending :: "indexed \<Rightarrow> indexed \<Rightarrow> jsnumber" where
  \<comment> \<open>\<open>(a, b) => b.score - a.score\<close>\<close>
  "byScoreDescending a b = jsSub (item_score b) (item_score a)"

definition byIndex :: "indexed \<Rightarrow> indexed \<Rightarrow> jsnumber" where
  \<comment> \<open>\<open>(a, b) => a.i - b.i\<close>\<close>
  "byIndex a b = Finite (of_nat (item_i a) - of_nat (item_i b))"

definition sortByScore :: "engine \<Rightarrow> indexed list \<Rightarrow> indexed list" where
  \<comment> \<open>\<open>indexed.sort((a, b) => b.score - a.score)\<close>. The comparison function is \<open>NaN\<close>
      exactly on the pairs with a \<open>NaN\<close> score (an element with itself included), and is
      consistent where every score is a number\<close>
  "sortByScore eng xs =
     (if list_ex (\<lambda>e. item_score e = NaN) xs
      then stableSort (\<lambda>a b. Finite (of_nat (eng xs a) - of_nat (eng xs b))) xs
      else stableSort byScoreDescending xs)"

definition sliceFromStart :: "'a list \<Rightarrow> int \<Rightarrow> 'a list" where
  \<comment> \<open>\<open>xs.slice(0, end)\<close> for a whole number \<open>end\<close>: a negative \<open>end\<close> counts from the end of
      the array\<close>
  "sliceFromStart xs end =
     (let len = int (length xs);
          final = (if end < 0 then max (len + end) 0 else min end len)
      in take (nat final) xs)"

subsection \<open>generateExtractiveSummary\<close>

definition splitSentences :: "string \<Rightarrow> string list" where
  \<comment> \<open>\<open>text.replace(/\s+/g, " ").match(/[^.!?]+[.!?]+/g) || [text]\<close>\<close>
  "splitSentences text =
     (case matchSentences (collapseWhitespace text) of [] \<Rightarrow> [text] | m # ms \<Rightarrow> m # ms)"

definition textFrequencies :: "string \<Rightarrow> freq_table" where
  "textFrequencies text = wordFrequencies (matchWords (toLowerCase text))"

definition indexedSentences :: "string \<Rightarrow> indexed list" where
  "indexedSentences text =
     (let sentences = splitSentences text;
          freq = textFrequencies text;
          scores = map (sentenceScore freq) sentences
      in map (\<lambda>i. \<lparr>item_s = sentences ! i, item_i = i, item_score = scores ! i\<rparr>)
           [0..<length sentences])"

definition selectedSentences :: "engine \<Rightarrow> string \<Rightarrow> int \<Rightarrow> indexed list" where
  \<comment> \<open>\<open>indexed.slice(0, Math.min(maxSentences, indexed.length))\<close>, after \<open>indexed\<close> has been
      sorted by score\<close>
  "selectedSentences eng text maxSentences =
     (let indexed = sortByScore eng (indexedSentences text)
      in sliceFromStart indexed (min maxSentences (int (length indexed))))"

definition topSentences :: "engine \<Rightarrow> string \<Rightarrow> int \<Rightarrow> indexed list" where
  \<comment> \<open>\<open>top\<close>: the selection sorted by \<open>(a, b) => a.i - b.i\<close>\<close>
  "topSentences eng text maxSentences =
     stableSort byIndex (selectedSentences eng text maxSentences)"

definition generateExtractiveSummary :: "engine \<Rightarrow> string \<Rightarrow> int \<Rightarrow> string" where
  "generateExtractiveSummary eng text maxSentences =
     (if text = [] then []
      else joinWith '' '' (map (\<lambda>t. trim (item_s t)) (topSentences eng text maxSentences)))"

subsection \<open>Terminators and the text after the last one\<close>

definition hasTerminator :: "string \<Rightarrow> bool" where
  "hasTerminator s = list_ex isTerminator s"

definition trailingText :: "string \<Rightarrow> string" where
  \<comment> \<open>the characters after the last terminator (the whole string if there is none)\<close>
  "trailingText s = rev (takeWhile (\<lambda>c. \<not> isTerminator c) (rev s))"

definition sentenceStart :: "string \<Rightarrow> nat \<Rightarrow> nat" where
  \<comment> \<open>where the sentence of index \<open>p\<close> begins in the collapsed text, when the pattern
      matches: after the leading terminators and the sentences before it\<close>
  "sentenceStart text p =
     length (takeWhile isTerminator (collapseWhitespace text))
       + length (concat (take p (splitSentences text)))"

subsection \<open>The score as the specification words it\<close>

definition specWordCount :: "string \<Rightarrow> string \<Rightarrow> nat" where
  \<comment> \<open>the count of a token among the tokens of the whole text that are not stopwords\<close>
  "specWordCount text w =
     count_list (filter (\<lambda>x. x \<notin> set stop) (matchWords (toLowerCase text))) w"

definition specScore :: "string \<Rightarrow> string \<Rightarrow> rat" where
  \<comment> \<open>the sum of those counts over the tokens of the sentence, divided by the greater of 5
      and the number of its tokens\<close>
  "specScore text s =
     of_nat (sum_list (map (specWordCount text) (matchWords (toLowerCase s))))
       / of_nat (max 5 (length (matchWords (toLowerCase s))))"

section \<open>The remote summarizer\<close>

text \<open>
  The body of a response as \<open>resp.json()\<close> parses it. The value of a number plays no part
  in what follows.
\<close>

datatype json =
    JNull
  | JBoolean bool
  | JNumber
  | JString string
  | JArray "json list"
  | JObject "(string \<times> json) list"

fun optionalMember :: "json option \<Rightarrow> string \<Rightarrow> json option" where
  \<comment> \<open>\<open>v?.name\<close> for the names \<open>candidates\<close>, \<open>content\<close>, \<open>parts\<close> and \<open>text\<close>, none of which
      a prototype defines; of two equal keys in an object the later one counts;
      \<open>None\<close> is \<open>undefined\<close>\<close>
  "optionalMember (Some (JObject kvs)) name = map_of (rev kvs) name"
| "optionalMember _ name = None"

fun optionalFirst :: "json option \<Rightarrow> json option" where
  \<comment> \<open>\<open>v?.[0]\<close>\<close>
  "optionalFirst (Some (JArray (x # xs))) = Some x"
| "optionalFirst (Some (JObject kvs)) = map_of (rev kvs) ''0''"
| "optionalFirst (Some (JString (c # cs))) = Some (JString [c])"
| "optionalFirst _ = None"

definition candidateText :: "json \<Rightarrow> json option" where
  \<comment> \<open>\<open>data?.candidates?.[0]?.content?.parts?.[0]?.text\<close>\<close>
  "candidateText data =
     optionalMember
       (optionalFirst
          (optionalMember
             (optionalMember
                (optionalFirst (optionalMember (Some data) ''candidates''))
                ''content'')
             ''parts''))
       ''text''"

datatype fetch_result =
    FetchRejected
    \<comment> \<open>\<open>fetch\<close> throws or its promise is rejected\<close>
  | HttpResponse bool "json option"
    \<comment> \<open>\<open>resp.ok\<close>, and the value of \<open>resp.json()\<close>, \<open>None\<close> where it is rejected\<close>

datatype db_operation = FindSession | FindGroup | UpdatePending | UpdateCompleted

text \<open>
  What a request handler meets outside the process: the environment variable, the answer
  of the remote service to a request (by its URL and the text it carries; the rest of the
  request is constant), which calls of the store fail, and the sort order of the engine
  where the language leaves it open.
\<close>

record environment =
  GEMINI_API_KEY :: "string option"
  fetch :: "string \<Rightarrow> string \<Rightarrow> fetch_result"
  dbFails :: "db_operation \<Rightarrow> bool"
  sortEngine :: engine

definition geminiUrl :: string where
  "geminiUrl = ''https://generativelanguage.googleapis.com/v1beta/models/gemini-1.5-flash:generateContent?key=''"

definition preamble :: string where
  "preamble = ''You are an expert note-taker for student study sessions. Summarize the discussion into clear, concise bullet points with headings, action items, and key takeaways. Keep it objective and avoid fabrications. Transcript begins:'' @ [CHR 0x0A, CHR 0x0A]"

definition maxChars :: nat where
  "maxChars = 16000"

definition requestText :: "string \<Rightarrow> string" where
  \<comment> \<open>the text the request carries: the preamble, then \<open>input\<close>, the transcript or its last
      \<open>maxChars\<close> code units\<close>
  "requestText transcript_in =
     (let input = (if length transcript_in > maxChars
                   then drop (length transcript_in - maxChars) transcript_in
                   else transcript_in)
      in preamble @ input)"

definition summarizeWithGemini :: "environment \<Rightarrow> string \<Rightarrow> string option" where
  \<comment> \<open>\<open>None\<close> is \<open>null\<close>; every exception ends in the \<open>catch\<close> that returns \<open>null\<close>\<close>
  "summarizeWithGemini env transcript_in =
     (case GEMINI_API_KEY env of
        None \<Rightarrow> None
      | Some apiKey \<Rightarrow>
          if apiKey = [] then None
          else
            (case fetch env (geminiUrl @ apiKey) (requestText transcript_in) of
               FetchRejected \<Rightarrow> None
             | HttpResponse ok parsed \<Rightarrow>
                 if \<not> ok then None
                 else
                   (case parsed of
                      None \<Rightarrow> None
                    | Some data \<Rightarrow>
                        (case candidateText data of
                           Some (JString t) \<Rightarrow>
                             if length (trim t) > 0 then Some (trim t) else None
                         | _ \<Rightarrow> None))))"

section \<open>Sessions and the request handlers\<close>

text \<open>
  Modelled from the spec: the schema of the store (the Prisma model \<open>Session\<close>) is not
  among the sources. Of a session, the fields the two handlers read or write are kept;
  \<open>summaryStatus\<close> has the three values the specification lists, and an optional field
  that was never set is \<open>None\<close>.
\<close>

datatype summary_status = not_available | pending | completed

record session =
  groupId :: string
  transcript :: "string option"
  summary :: "string option"
  summaryStatus :: "summary_status option"
  transcriptLang :: "string option"

record database =
  sessions :: "string \<rightharpoonup> session"
  groups :: "string \<rightharpoonup> string list"
  \<comment> \<open>\<open>memberIds\<close> by group id\<close>

datatype field = Absent | StringValue string | OtherValue

record payload =
  transcriptField :: field
  langField :: field

record request =
  req_user :: "string option"
  \<comment> \<open>the id of \<open>req.user\<close>\<close>
  req_sessionId :: string
  req_body :: "payload option"
  \<comment> \<open>\<open>None\<close> where \<open>req.body\<close> is not an object\<close>

datatype response_body =
    Message string
  | TranscriptSaved string
    \<comment> \<open>\<open>{ message: "Transcript saved", summary }\<close>\<close>
  | SummaryView "string option" "string option" summary_status "string option"
    \<comment> \<open>\<open>{ transcript, summary, status, lang }\<close>\<close>

datatype response = Response nat response_body

datatype event =
    Updated string session
    \<comment> \<open>\<open>db.session.update\<close> has written this row under this id\<close>
  | Summarizing string
    \<comment> \<open>summarization of this transcript begins\<close>

definition parseBody :: "payload option \<Rightarrow> (string \<times> string option) option" where
  \<comment> \<open>\<open>bodySchema.safeParse(req.body)\<close>: \<open>transcript\<close> a string of length at least 1,
      \<open>lang\<close> a string or absent\<close>
  "parseBody b =
     (case b of
        None \<Rightarrow> None
      | Some p \<Rightarrow>
          (case transcriptField p of
             StringValue t \<Rightarrow>
               if length t < 1 then None
               else (case langField p of
                       Absent \<Rightarrow> Some (t, None)
                     | StringValue l \<Rightarrow> Some (t, Some l)
                     | OtherValue \<Rightarrow> None)
           | _ \<Rightarrow> None))"

definition isMember :: "database \<Rightarrow> string \<Rightarrow> string \<Rightarrow> bool" where
  \<comment> \<open>\<open>db.group.findFirst({ where: { id, memberIds: { has: userId } } })\<close> finds a group\<close>
  "isMember db gid uid = (case groups db gid of None \<Rightarrow> False | Some ms \<Rightarrow> uid \<in> set ms)"

definition mergeTranscript :: "string option \<Rightarrow> string \<Rightarrow> string" where
  \<comment> \<open>\<open>existingTranscript ? existingTranscript + "\n" + transcript : transcript\<close>\<close>
  "mergeTranscript existing incoming =
     (case existing of
        None \<Rightarrow> incoming
      | Some e \<Rightarrow> if e = [] then incoming else e @ [CHR 0x0A] @ incoming)"

definition orElse :: "string option \<Rightarrow> string \<Rightarrow> string" where
  \<comment> \<open>\<open>a || b\<close> for a string or \<open>null\<close> on the left\<close>
  "orElse a b = (case a of None \<Rightarrow> b | Some x \<Rightarrow> if x = [] then b else x)"

definition failed :: "string \<Rightarrow> response" where
  "failed msg = Response 500 (Message msg)"

definition uploadTranscript ::
  "environment \<Rightarrow> request \<Rightarrow> database \<Rightarrow> response \<times> database \<times> event list" where
  "uploadTranscript env req db =
     (case req_user req of
        None \<Rightarrow> (Response 401 (Message ''Unauthorized''), db, [])
      | Some uid \<Rightarrow>
     (case parseBody (req_body req) of
        None \<Rightarrow> (Response 400 (Message ''Invalid payload''), db, [])
      | Some (fragment, lang) \<Rightarrow>
     if dbFails env FindSession then (failed ''Failed to save transcript'', db, [])
     else
     (case sessions db (req_sessionId req) of
        None \<Rightarrow> (Response 404 (Message ''Session not found''), db, [])
      | Some row \<Rightarrow>
     if dbFails env FindGroup then (failed ''Failed to save transcript'', db, [])
     else if \<not> isMember db (groupId row) uid then (Response 403 (Message ''Forbidden''), db, [])
     else
       (let mergedTranscript = mergeTranscript (transcript row) fragment
        in if dbFails env UpdatePending then (failed ''Failed to save transcript'', db, [])
           else
             (let row1 = row\<lparr>transcript := Some mergedTranscript,
                            summaryStatus := Some pending,
                            transcriptLang := (case lang of None \<Rightarrow> transcriptLang row
                                               | Some l \<Rightarrow> Some l)\<rparr>;
                  db1 = db\<lparr>sessions := (sessions db)(req_sessionId req \<mapsto> row1)\<rparr>;
                  llmSummary = summarizeWithGemini env mergedTranscript;
                  final = orElse llmSummary
                            (generateExtractiveSummary (sortEngine env) mergedTranscript 5)
              in if dbFails env UpdateCompleted
                 then (failed ''Failed to save transcript'', db1,
                       [Updated (req_sessionId req) row1, Summarizing mergedTranscript])
                 else
                   (let row2 = row1\<lparr>summary := Some final, summaryStatus := Some completed\<rparr>;
                        db2 = db1\<lparr>sessions := (sessions db1)(req_sessionId req \<mapsto> row2)\<rparr>
                    in (Response 200 (TranscriptSaved final), db2,
                        [Updated (req_sessionId req) row1, Summarizing mergedTranscript,
                         Updated (req_sessionId req) row2])))))))"






subsection \<open>The outcome of a submission\<close>

definition responseOf :: "response \<times> database \<times> event list \<Rightarrow> response" where
  "responseOf r = fst r"

definition dbAfter :: "response \<times> database \<times> event list \<Rightarrow> database" where
  "dbAfter r = fst (snd r)"




subsection \<open>Sequences of submissions\<close>

definition visible :: "string \<Rightarrow> bool" where
  \<comment> \<open>the string has a character that is not whitespace\<close>
  "visible s = list_ex (\<lambda>c. \<not> isWhitespace c) s"

fun submitAll :: "(environment \<times> request) list \<Rightarrow> database \<Rightarrow> database" where
  \<comment> \<open>the store after these submissions, one after the other\<close>
  "submitAll [] db = db"
| "submitAll ((env, req) # rs) db = submitAll rs (dbAfter (uploadTranscript env req db))"

definition completedHaveSummary :: "database \<Rightarrow> bool" where
  "completedHaveSummary db \<longleftrightarrow>
     (\<forall>sid row. sessions db sid = Some row \<and> summaryStatus row = Some completed
        \<longrightarrow> (\<exists>x. summary row = Some x \<and> x \<noteq> []))"

section \<open>Example data\<close>

definition scenario :: string where
  "scenario = ''The cat sat on the mat. The dog ran in the park. Cats and dogs are great pets. The weather was nice today. Everyone enjoyed the sunny afternoon.''"

definition exampleEnv :: environment where
  \<comment> \<open>no credential, an unreachable service, a store that works\<close>
  "exampleEnv = \<lparr>GEMINI_API_KEY = None, fetch = (\<lambda>url t. FetchRejected),
                  dbFails = (\<lambda>p. False), sortEngine = (\<lambda>xs e. 0)\<rparr>"


definition serviceEnv :: "fetch_result \<Rightarrow> environment" where
  \<comment> \<open>a credential, and a service that gives this answer to every request\<close>
  "serviceEnv r = \<lparr>GEMINI_API_KEY = Some ''key'', fetch = (\<lambda>url t. r),
                    dbFails = (\<lambda>p. False), sortEngine = (\<lambda>xs e. 0)\<rparr>"

definition geminiAnswer :: "string \<Rightarrow> json" where
  \<comment> \<open>\<open>{ "candidates": [ { "content": { "parts": [ { "text": t } ] } } ] }\<close>\<close>
  "geminiAnswer t =
     JObject [(''candidates'',
       JArray [JObject [(''content'',
         JObject [(''parts'', JArray [JObject [(''text'', JString t)]])])]])]"

definition exampleRow :: session where
  "exampleRow = \<lparr>groupId = ''g1'', transcript = None, summary = None, summaryStatus = None,
                  transcriptLang = None\<rparr>"

definition exampleDb :: database where
  "exampleDb = \<lparr>sessions = [''s1'' \<mapsto> exampleRow], groups = [''g1'' \<mapsto> [''u1'']]\<rparr>"

definition exampleRequest :: "string \<Rightarrow> request" where
  "exampleRequest t =
     \<lparr>req_user = Some ''u1'', req_sessionId = ''s1'',
      req_body = Some \<lparr>transcriptField = StringValue t, langField = Absent\<rparr>\<rparr>"


section \<open>Properties of the string functions\<close>

lemma dropWhile_trim: "dropWhile isWhitespace (trim s) = trim s"
proof -
  define u where "u = dropWhile isWhitespace s"
  define w where "w = dropWhile isWhitespace (rev u)"
  have t: "trim s = rev w"
    by (simp add: trim_def u_def w_def)
  show ?thesis
  proof (cases "w = []")
    case True
    then show ?thesis by (simp add: t)
  next
    case False
    then have "u \<noteq> []"
      by (auto simp: w_def)
    then have hu: "\<not> isWhitespace (hd u)"
      unfolding u_def by (metis hd_dropWhile)
    have "last w = last (rev u)"
      unfolding w_def using False by (metis w_def last_appendR takeWhile_dropWhile_id)
    then have "hd (rev w) = hd u"
      using False \<open>u \<noteq> []\<close> by (simp add: hd_rev last_rev)
    then have "\<not> isWhitespace (hd (rev w))"
      using hu by simp
    then have "dropWhile isWhitespace (rev w) = rev w"
      using False by (cases "rev w") auto
    then show ?thesis by (simp add: t)
  qed
qed

lemma trim_trim: "trim (trim s) = trim s"
proof -
  have "trim (trim s) = rev (dropWhile isWhitespace (rev (trim s)))"
    unfolding trim_def [of "trim s"] by (simp add: dropWhile_trim)
  also have "\<dots> = rev (dropWhile isWhitespace
                        (dropWhile isWhitespace (rev (dropWhile isWhitespace s))))"
    by (simp add: trim_def)
  also have "\<dots> = trim s"
    by (simp add: trim_def)
  finally show ?thesis .
qed

section \<open>The order of the selected sentences\<close>

lemma mset_insertBy: "mset (insertBy cmp x xs) = add_mset x (mset xs)"
  by (induction xs) auto

lemma mset_stableSort: "mset (stableSort cmp xs) = mset xs"
  unfolding stableSort_def by (induction xs) (auto simp: mset_insertBy)

lemma set_stableSort: "set (stableSort cmp xs) = set xs"
proof -
  have "set_mset (mset (stableSort cmp xs)) = set_mset (mset xs)"
    by (simp only: mset_stableSort)
  then show ?thesis by simp
qed

lemma notPositive_byIndex: "notPositive (byIndex a b) \<longleftrightarrow> item_i a \<le> item_i b"
  by (simp add: notPositive_def byIndex_def)

lemma set_insertBy: "set (insertBy cmp x xs) = insert x (set xs)"
  by (induction xs) auto

lemma sorted_insertBy_byIndex:
  "sorted (map item_i xs) \<Longrightarrow> sorted (map item_i (insertBy byIndex x xs))"
  by (induction xs) (auto simp: notPositive_byIndex set_insertBy)

lemma sorted_stableSort_byIndex: "sorted (map item_i (stableSort byIndex xs))"
proof (induction xs)
  case Nil
  then show ?case by (simp add: stableSort_def)
next
  case (Cons x xs)
  then show ?case
    using sorted_insertBy_byIndex [of "stableSort byIndex xs" x] by (simp add: stableSort_def)
qed

lemma set_sliceFromStart: "set (sliceFromStart xs e) \<subseteq> set xs"
  by (auto simp: sliceFromStart_def Let_def dest: in_set_takeD)

lemma map_item_i_indexedSentences:
  "map item_i (indexedSentences text) = [0..<length (splitSentences text)]"
  by (simp add: indexedSentences_def Let_def comp_def)

lemma indexedSentences_item:
  assumes "e \<in> set (indexedSentences text)"
  shows "item_i e < length (splitSentences text) \<and> item_s e = splitSentences text ! item_i e"
  using assms by (auto simp: indexedSentences_def Let_def)

lemma distinct_map_stableSort:
  "distinct (map f (stableSort cmp xs)) \<longleftrightarrow> distinct (map f xs)"
proof -
  have "mset (map f (stableSort cmp xs)) = mset (map f xs)"
    by (simp add: mset_stableSort)
  then show ?thesis
    by (rule mset_eq_imp_distinct_iff)
qed

lemma distinct_map_sliceFromStart:
  "distinct (map f xs) \<Longrightarrow> distinct (map f (sliceFromStart xs e))"
  by (simp add: sliceFromStart_def Let_def take_map [symmetric])

lemma distinct_map_sortByScore:
  "distinct (map f (sortByScore eng xs)) \<longleftrightarrow> distinct (map f xs)"
  by (simp add: sortByScore_def distinct_map_stableSort)

lemma set_sortByScore: "set (sortByScore eng xs) = set xs"
  by (simp add: sortByScore_def set_stableSort)

lemma selectedSentences_subset:
  "set (selectedSentences eng text n) \<subseteq> set (indexedSentences text)"
proof -
  have "set (selectedSentences eng text n) \<subseteq> set (sortByScore eng (indexedSentences text))"
    unfolding selectedSentences_def Let_def by (rule set_sliceFromStart)
  then show ?thesis
    by (simp add: set_sortByScore)
qed

lemma selectedSentences_distinct: "distinct (map item_i (selectedSentences eng text n))"
proof -
  have "distinct (map item_i (indexedSentences text))"
    by (simp add: map_item_i_indexedSentences)
  then have "distinct (map item_i (sortByScore eng (indexedSentences text)))"
    by (simp add: distinct_map_sortByScore)
  then show ?thesis
    unfolding selectedSentences_def Let_def by (rule distinct_map_sliceFromStart)
qed

lemma set_topSentences:
  "set (topSentences eng text n) = set (selectedSentences eng text n)"
  by (simp add: topSentences_def set_stableSort)

lemma topSentences_strictly_sorted: "sorted_wrt (<) (map item_i (topSentences eng text n))"
proof -
  have "sorted (map item_i (topSentences eng text n))"
    by (simp add: topSentences_def sorted_stableSort_byIndex)
  moreover have "distinct (map item_i (topSentences eng text n))"
    by (simp add: topSentences_def distinct_map_stableSort selectedSentences_distinct)
  ultimately show ?thesis
    by (simp add: strict_sorted_iff)
qed

lemma length_stableSort: "length (stableSort cmp xs) = length xs"
proof -
  have "size (mset (stableSort cmp xs)) = size (mset xs)"
    by (simp only: mset_stableSort)
  then show ?thesis by simp
qed

lemma length_topSentences_le:
  "length (topSentences eng text n) \<le> length (splitSentences text)"
proof -
  have "length (sortByScore eng (indexedSentences text)) = length (splitSentences text)"
    by (simp add: sortByScore_def length_stableSort indexedSentences_def Let_def)
  then show ?thesis
    by (simp add: topSentences_def length_stableSort selectedSentences_def Let_def
        sliceFromStart_def)
qed

lemma joinWith_all_empty:
  "length xs \<le> 1 \<Longrightarrow> \<forall>x \<in> set xs. x = [] \<Longrightarrow> joinWith sep xs = []"
proof (cases xs)
  case Nil
  then show ?thesis by simp
next
  case (Cons x ys)
  assume "length xs \<le> 1" and "\<forall>x \<in> set xs. x = []"
  with Cons have "ys = []" and "x = []" by auto
  with Cons show ?thesis by simp
qed

lemma generateExtractiveSummary_eq:
  "generateExtractiveSummary eng text n
     = joinWith '' '' (map (\<lambda>t. trim (item_s t)) (topSentences eng text n))"
proof (cases "text = []")
  case False
  then show ?thesis by (simp add: generateExtractiveSummary_def)
next
  case True
  have s: "splitSentences text = [[]]"
    using True by (simp add: splitSentences_def)
  have "length (map (\<lambda>t. trim (item_s t)) (topSentences eng text n)) \<le> 1"
    using length_topSentences_le [of eng "text" n] s by simp
  moreover have "\<forall>x \<in> set (map (\<lambda>t. trim (item_s t)) (topSentences eng text n)). x = []"
    using selectedSentences_subset [of eng "text" n] indexedSentences_item [of _ "text"] s
    by (auto simp: set_topSentences trim_def)
  ultimately have "joinWith '' '' (map (\<lambda>t. trim (item_s t)) (topSentences eng text n)) = []"
    by (rule joinWith_all_empty)
  then show ?thesis
    using True by (simp add: generateExtractiveSummary_def)
qed

text \<open>
  Claim C6. For every text and every \<open>maxSentences\<close>, the summary is made of the selected
  sentences in ascending order of their position in the text, each trimmed, joined by
  one space: there is a strictly ascending list of positions, which are exactly the
  positions of the sentences selected by rank, such that the summary is the join of the
  trimmed sentences at these positions.
\<close>

theorem summary_in_document_order:
  "\<exists>ps. sorted_wrt (<) ps \<and>
        set ps = item_i ` set (selectedSentences eng text maxSentences) \<and>
        (\<forall>p \<in> set ps. p < length (splitSentences text)) \<and>
        generateExtractiveSummary eng text maxSentences
          = joinWith '' '' (map (\<lambda>p. trim (splitSentences text ! p)) ps)"
proof -
  let ?top = "topSentences eng text maxSentences"
  let ?ps = "map item_i ?top"
  have 1: "sorted_wrt (<) ?ps"
    by (rule topSentences_strictly_sorted)
  have 2: "set ?ps = item_i ` set (selectedSentences eng text maxSentences)"
    by (simp add: set_topSentences)
  have 3: "\<forall>p \<in> set ?ps. p < length (splitSentences text)"
    using selectedSentences_subset [of eng "text" maxSentences] indexedSentences_item [of _ "text"]
    by (auto simp: set_topSentences)
  have eq: "map (\<lambda>t. trim (item_s t)) ?top = map (\<lambda>p. trim (splitSentences text ! p)) ?ps"
    using selectedSentences_subset [of eng "text" maxSentences] indexedSentences_item [of _ "text"]
    by (auto simp: set_topSentences)
  have 4: "generateExtractiveSummary eng text maxSentences
       = joinWith '' '' (map (\<lambda>p. trim (splitSentences text ! p)) ?ps)"
    unfolding generateExtractiveSummary_eq by (simp only: eq)
  from 1 2 3 4 show ?thesis by blast
qed

theorem summary_in_document_order_witness:
  "(\<exists>ps. sorted_wrt (<) ps \<and>
        set ps = item_i ` set (selectedSentences (sortEngine exampleEnv) scenario 2) \<and>
        (\<forall>p \<in> set ps. p < length (splitSentences scenario)) \<and>
        generateExtractiveSummary (sortEngine exampleEnv) scenario 2
          = joinWith '' '' (map (\<lambda>p. trim (splitSentences scenario ! p)) ps)) \<and>
   map item_i (selectedSentences (sortEngine exampleEnv) scenario 2) = [4, 2] \<and>
   generateExtractiveSummary (sortEngine exampleEnv) scenario 2
     = ''Cats and dogs are great pets. Everyone enjoyed the sunny afternoon.''"
proof -
  have a: "map item_i (selectedSentences (sortEngine exampleEnv) scenario 2) = [4, 2]"
    by code_simp
  have b: "generateExtractiveSummary (sortEngine exampleEnv) scenario 2
     = ''Cats and dogs are great pets. Everyone enjoyed the sunny afternoon.''"
    by code_simp
  from summary_in_document_order [of "sortEngine exampleEnv" scenario 2] a b show ?thesis
    by (intro conjI)
qed

section \<open>The text after the last terminator\<close>

lemma hasTerminator_iff: "hasTerminator s \<longleftrightarrow> (\<exists>x \<in> set s. isTerminator x)"
  by (simp add: hasTerminator_def list_ex_iff)

lemma matchSentences_nonempty_iff:
  "matchSentences s \<noteq> [] \<longleftrightarrow> hasTerminator (dropWhile isTerminator s)"
proof (induction s rule: matchSentences.induct)
  case 1
  then show ?case by (simp add: hasTerminator_iff)
next
  case (2 c cs)
  show ?case
  proof (cases "isTerminator c")
    case True
    with 2 show ?thesis by simp
  next
    case False
    have "dropWhile (\<lambda>x. \<not> isTerminator x) cs \<noteq> [] \<longleftrightarrow> (\<exists>x \<in> set cs. isTerminator x)"
      by (simp add: dropWhile_eq_Nil_conv)
    with False show ?thesis
      by (simp add: Let_def hasTerminator_iff)
  qed
qed

lemma takeWhile_terminators_last:
  assumes "rest = dropWhile (\<lambda>x. \<not> isTerminator x) cs" and "rest \<noteq> []"
  shows "takeWhile isTerminator rest \<noteq> [] \<and> isTerminator (last (takeWhile isTerminator rest))"
proof -
  from assms have "isTerminator (hd rest)"
    using hd_dropWhile [of "\<lambda>x. \<not> isTerminator x" cs] by simp
  with assms(2) have ne: "takeWhile isTerminator rest \<noteq> []"
    by (cases rest) auto
  then have "last (takeWhile isTerminator rest) \<in> set (takeWhile isTerminator rest)"
    by (rule last_in_set)
  then have "isTerminator (last (takeWhile isTerminator rest))"
    by (rule set_takeWhileD [THEN conjunct2])
  with ne show ?thesis by simp
qed

lemma matchSentences_ends:
  "x \<in> set (matchSentences s) \<Longrightarrow> x \<noteq> [] \<and> isTerminator (last x)"
proof (induction s rule: matchSentences.induct)
  case 1
  then show ?case by simp
next
  case (2 c cs)
  show ?case
  proof (cases "isTerminator c")
    case True
    with 2 show ?thesis by simp
  next
    case False
    define rest where "rest = dropWhile (\<lambda>x. \<not> isTerminator x) cs"
    show ?thesis
    proof (cases "rest = []")
      case True
      with False 2(3) show ?thesis by (simp add: rest_def)
    next
      case ne: False
      from takeWhile_terminators_last [OF rest_def ne]
      have t: "takeWhile isTerminator rest \<noteq> []"
        "isTerminator (last (takeWhile isTerminator rest))" by simp_all
      have "matchSentences (c # cs)
          = (c # takeWhile (\<lambda>x. \<not> isTerminator x) cs @ takeWhile isTerminator rest)
            # matchSentences (dropWhile isTerminator rest)"
        using False ne by (simp add: rest_def Let_def)
      with 2(3)
      have "x = c # takeWhile (\<lambda>x. \<not> isTerminator x) cs @ takeWhile isTerminator rest
            \<or> x \<in> set (matchSentences (dropWhile isTerminator rest))"
        by simp
      then show ?thesis
      proof
        assume "x = c # takeWhile (\<lambda>x. \<not> isTerminator x) cs @ takeWhile isTerminator rest"
        with t show ?thesis by simp
      next
        assume "x \<in> set (matchSentences (dropWhile isTerminator rest))"
        with 2(2) [OF False rest_def ne] show ?thesis by simp
      qed
    qed
  qed
qed

lemma trailingText_after_terminator:
  assumes "isTerminator t" and "\<forall>x \<in> set ys. \<not> isTerminator x"
  shows "trailingText (xs @ t # ys) = ys"
proof -
  have "\<And>x. x \<in> set (rev ys) \<Longrightarrow> \<not> isTerminator x"
    using assms(2) by simp
  then have "takeWhile (\<lambda>c. \<not> isTerminator c) (rev ys @ t # rev xs)
      = rev ys @ takeWhile (\<lambda>c. \<not> isTerminator c) (t # rev xs)"
    by (rule takeWhile_append2)
  then have "takeWhile (\<lambda>c. \<not> isTerminator c) (rev ys @ t # rev xs) = rev ys"
    using assms(1) by simp
  then show ?thesis by (simp add: trailingText_def)
qed

lemma trailingText_append:
  assumes "hasTerminator ys"
  shows "trailingText (xs @ ys) = trailingText ys"
proof -
  from assms obtain x where "x \<in> set (rev ys)" "\<not> \<not> isTerminator x"
    by (auto simp: hasTerminator_iff)
  then have "takeWhile (\<lambda>c. \<not> isTerminator c) (rev ys @ rev xs)
      = takeWhile (\<lambda>c. \<not> isTerminator c) (rev ys)"
    by (rule takeWhile_append1)
  then show ?thesis by (simp add: trailingText_def)
qed

lemma hasTerminator_dropWhile: "hasTerminator (dropWhile P s) \<Longrightarrow> hasTerminator s"
  by (auto simp: hasTerminator_iff dest: set_dropWhileD)

lemma matchSentences_cover:
  "matchSentences s \<noteq> [] \<Longrightarrow>
     dropWhile isTerminator s = concat (matchSentences s) @ trailingText s"
proof (induction s rule: matchSentences.induct)
  case 1
  then show ?case by simp
next
  case (2 c cs)
  show ?case
  proof (cases "isTerminator c")
    case True
    with 2(3) have ne: "matchSentences cs \<noteq> []" by simp
    then have "hasTerminator cs"
      using hasTerminator_dropWhile by (simp add: matchSentences_nonempty_iff)
    then have "trailingText ([c] @ cs) = trailingText cs"
      by (rule trailingText_append)
    with 2(1) [OF True ne] True show ?thesis by simp
  next
    case False
    define rest where "rest = dropWhile (\<lambda>x. \<not> isTerminator x) cs"
    define pre where "pre = c # takeWhile (\<lambda>x. \<not> isTerminator x) cs @ takeWhile isTerminator rest"
    define r' where "r' = dropWhile isTerminator rest"
    from 2(3) False have ne: "rest \<noteq> []"
      by (auto simp: rest_def Let_def split: if_splits)
    have ms: "matchSentences (c # cs) = pre # matchSentences r'"
      using False ne by (simp add: rest_def pre_def r'_def Let_def)
    have whole: "c # cs = pre @ r'"
      by (simp add: rest_def pre_def r'_def)
    from takeWhile_terminators_last [OF rest_def ne]
    have t: "takeWhile isTerminator rest \<noteq> []"
      "isTerminator (last (takeWhile isTerminator rest))" by simp_all
    have idem: "dropWhile isTerminator r' = r'"
      by (simp add: r'_def)
    show ?thesis
    proof (cases "matchSentences r' = []")
      case True
      then have "\<not> hasTerminator r'"
        using matchSentences_nonempty_iff [of r'] idem by simp
      then have none: "\<forall>x \<in> set r'. \<not> isTerminator x"
        by (simp add: hasTerminator_iff)
      have "pre \<noteq> []"
        by (simp add: pre_def)
      then have "butlast pre @ [last pre] = pre"
        by simp
      moreover have "last pre = last (takeWhile isTerminator rest)"
        using t(1) by (simp add: pre_def)
      ultimately have "pre = butlast pre @ [last (takeWhile isTerminator rest)]"
        by simp
      then obtain p0 where p0: "pre = p0 @ [last (takeWhile isTerminator rest)]" ..
      have "trailingText (c # cs) = trailingText (p0 @ last (takeWhile isTerminator rest) # r')"
        by (simp add: whole p0)
      also have "\<dots> = r'"
        using t(2) none by (rule trailingText_after_terminator)
      finally have tt: "trailingText (c # cs) = r'" .
      have "dropWhile isTerminator (c # cs) = c # cs"
        using False by simp
      also have "\<dots> = pre @ r'"
        by (rule whole)
      also have "\<dots> = concat (matchSentences (c # cs)) @ trailingText (c # cs)"
        by (simp add: ms True tt del: matchSentences.simps)
      finally show ?thesis .
    next
      case nonempty: False
      from 2(2) [OF False rest_def ne] nonempty
      have ih: "r' = concat (matchSentences r') @ trailingText r'"
        using idem by (simp add: r'_def)
      from nonempty have "hasTerminator r'"
        using matchSentences_nonempty_iff [of r'] idem by simp
      then have "trailingText (pre @ r') = trailingText r'"
        by (rule trailingText_append)
      then have tt: "trailingText (c # cs) = trailingText r'"
        by (simp add: whole)
      have "dropWhile isTerminator (c # cs) = c # cs"
        using False by simp
      also have "\<dots> = pre @ r'"
        by (rule whole)
      also have "\<dots> = concat (matchSentences (c # cs)) @ trailingText (c # cs)"
        by (simp add: ms tt ih [symmetric] del: matchSentences.simps)
      finally show ?thesis .
    qed
  qed
qed


lemma terminator_not_whitespace: "isTerminator c \<Longrightarrow> \<not> isWhitespace c"
  by (auto simp: isTerminator_def isWhitespace_def)

lemma trim_keeps_last:
  assumes "s \<noteq> []" and "\<not> isWhitespace (last s)"
  shows "trim s \<noteq> [] \<and> last (trim s) = last s"
proof -
  define u where "u = dropWhile isWhitespace s"
  have "last s \<in> set s"
    using assms(1) by simp
  with assms(2) have une: "u \<noteq> []"
    by (auto simp: u_def dropWhile_eq_Nil_conv)
  have "s = takeWhile isWhitespace s @ u"
    by (simp add: u_def)
  with une have lu: "last u = last s"
    by (metis last_appendR)
  have "hd (rev u) = last u"
    using une by (simp add: hd_rev)
  with lu assms(2) have "\<not> isWhitespace (hd (rev u))"
    by simp
  then have "dropWhile isWhitespace (rev u) = rev u"
    using une by (cases "rev u") auto
  then have "trim s = u"
    by (simp add: trim_def u_def)
  with une lu show ?thesis by simp
qed

lemma joinWith_last:
  "xs \<noteq> [] \<Longrightarrow> last xs \<noteq> [] \<Longrightarrow>
     joinWith sep xs \<noteq> [] \<and> last (joinWith sep xs) = last (last xs)"
  by (induction sep xs rule: joinWith.induct) auto


lemma splitSentences_matched:
  "matchSentences (collapseWhitespace text) \<noteq> [] \<Longrightarrow>
     splitSentences text = matchSentences (collapseWhitespace text)"
  by (cases "matchSentences (collapseWhitespace text)") (simp_all add: splitSentences_def)

lemma top_sentence_in_split:
  assumes "e \<in> set (topSentences eng text n)"
  shows "item_s e \<in> set (splitSentences text)"
proof -
  from assms have "e \<in> set (indexedSentences text)"
    using selectedSentences_subset [of eng "text" n] by (auto simp: set_topSentences)
  then have "item_i e < length (splitSentences text)"
    and "item_s e = splitSentences text ! item_i e"
    using indexedSentences_item [of e "text"] by simp_all
  then show ?thesis by simp
qed

lemma trim_infix:
  "s = takeWhile isWhitespace s @ trim s
         @ rev (takeWhile isWhitespace (rev (dropWhile isWhitespace s)))"
proof -
  define u where "u = dropWhile isWhitespace s"
  have "rev (dropWhile isWhitespace (rev u)) @ rev (takeWhile isWhitespace (rev u))
      = rev (takeWhile isWhitespace (rev u) @ dropWhile isWhitespace (rev u))"
    by (simp only: rev_append)
  also have "\<dots> = u"
    by (simp only: takeWhile_dropWhile_id rev_rev_ident)
  finally have "u = rev (dropWhile isWhitespace (rev u)) @ rev (takeWhile isWhitespace (rev u))"
    by (rule sym)
  then have "u = trim s @ rev (takeWhile isWhitespace (rev u))"
    by (simp add: trim_def u_def)
  moreover have "s = takeWhile isWhitespace s @ u"
    by (simp add: u_def)
  ultimately show ?thesis
    by (simp add: u_def)
qed

lemma collapsed_decomposition:
  assumes "hasTerminator (dropWhile isTerminator (collapseWhitespace text))"
  shows "collapseWhitespace text
           = takeWhile isTerminator (collapseWhitespace text)
               @ concat (splitSentences text) @ trailingText (collapseWhitespace text)"
proof -
  from assms have ne: "matchSentences (collapseWhitespace text) \<noteq> []"
    by (simp add: matchSentences_nonempty_iff)
  then have "dropWhile isTerminator (collapseWhitespace text)
      = concat (splitSentences text) @ trailingText (collapseWhitespace text)"
    by (simp add: splitSentences_matched matchSentences_cover)
  then have "takeWhile isTerminator (collapseWhitespace text)
               @ dropWhile isTerminator (collapseWhitespace text)
      = takeWhile isTerminator (collapseWhitespace text)
               @ concat (splitSentences text) @ trailingText (collapseWhitespace text)"
    by simp
  then show ?thesis
    by (simp only: takeWhile_dropWhile_id)
qed

lemma concat_split_nth:
  "p < length S \<Longrightarrow> concat S = concat (take p S) @ S ! p @ concat (drop (Suc p) S)"
proof -
  assume "p < length S"
  then have "S = take p S @ S ! p # drop (Suc p) S"
    by (rule id_take_nth_drop)
  then have "concat S = concat (take p S @ S ! p # drop (Suc p) S)"
    by (rule arg_cong)
  then show ?thesis by simp
qed

lemma piece_position:
  assumes "c = X @ s @ Y"
  shows "c = take (length X) c @ s @ drop (length X + length s) c"
  using assms by simp

lemma sentence_position:
  assumes "hasTerminator (dropWhile isTerminator (collapseWhitespace text))"
    and "p < length (splitSentences text)"
  shows "collapseWhitespace text
           = take (sentenceStart text p) (collapseWhitespace text)
               @ splitSentences text ! p
               @ drop (sentenceStart text p + length (splitSentences text ! p))
                   (collapseWhitespace text) \<and>
         sentenceStart text p + length (splitSentences text ! p)
           + length (trailingText (collapseWhitespace text))
           \<le> length (collapseWhitespace text) \<and>
         (\<exists>a b. collapseWhitespace text
                  = a @ trim (splitSentences text ! p) @ b
                      @ trailingText (collapseWhitespace text))"
proof -
  let ?c = "collapseWhitespace text" and ?S = "splitSentences text"
  let ?X = "takeWhile isTerminator ?c @ concat (take p ?S)"
  let ?Y = "concat (drop (Suc p) ?S)"
  have lx: "length ?X = sentenceStart text p"
    by (simp add: sentenceStart_def)
  have "?c = takeWhile isTerminator ?c @ concat ?S @ trailingText ?c"
    using assms(1) by (rule collapsed_decomposition)
  also have "concat ?S = concat (take p ?S) @ ?S ! p @ ?Y"
    using assms(2) by (rule concat_split_nth)
  finally have whole: "?c = ?X @ ?S ! p @ (?Y @ trailingText ?c)"
    by simp
  from piece_position [OF whole]
  have 1: "?c = take (sentenceStart text p) ?c @ ?S ! p
                  @ drop (sentenceStart text p + length (?S ! p)) ?c"
    by (simp only: lx)
  have "length ?c = length (?X @ ?S ! p @ (?Y @ trailingText ?c))"
    using whole by (rule arg_cong)
  then have 2: "sentenceStart text p + length (?S ! p) + length (trailingText ?c) \<le> length ?c"
    by (simp add: lx [symmetric])
  obtain a b where ab: "?S ! p = a @ trim (?S ! p) @ b"
    using trim_infix by blast
  have "?c = ?X @ (a @ trim (?S ! p) @ b) @ (?Y @ trailingText ?c)"
    using whole ab by simp
  then have "?c = (?X @ a) @ trim (?S ! p) @ (b @ ?Y) @ trailingText ?c"
    by simp
  then have 3: "\<exists>a b. ?c = a @ trim (?S ! p) @ b @ trailingText ?c"
    by blast
  from 1 2 3 show ?thesis by blast
qed

lemma summary_positions:
  "sorted_wrt (<) (map item_i (topSentences eng text n)) \<and>
   set (map item_i (topSentences eng text n)) = item_i ` set (selectedSentences eng text n) \<and>
   (\<forall>p \<in> set (map item_i (topSentences eng text n)). p < length (splitSentences text)) \<and>
   generateExtractiveSummary eng text n
     = joinWith '' '' (map (\<lambda>p. trim (splitSentences text ! p))
                         (map item_i (topSentences eng text n)))"
proof -
  let ?top = "topSentences eng text n"
  let ?ps = "map item_i ?top"
  have 1: "sorted_wrt (<) ?ps"
    by (rule topSentences_strictly_sorted)
  have 2: "set ?ps = item_i ` set (selectedSentences eng text n)"
    by (simp add: set_topSentences)
  have 3: "\<forall>p \<in> set ?ps. p < length (splitSentences text)"
    using selectedSentences_subset [of eng "text" n] indexedSentences_item [of _ "text"]
    by (auto simp: set_topSentences)
  have eq: "map (\<lambda>t. trim (item_s t)) ?top = map (\<lambda>p. trim (splitSentences text ! p)) ?ps"
    using selectedSentences_subset [of eng "text" n] indexedSentences_item [of _ "text"]
    by (auto simp: set_topSentences)
  have 4: "generateExtractiveSummary eng text n
       = joinWith '' '' (map (\<lambda>p. trim (splitSentences text ! p)) ?ps)"
    unfolding generateExtractiveSummary_eq by (simp only: eq)
  from 1 2 3 4 show ?thesis by blast
qed

text \<open>
  Claim C10, as amended. If the text with its whitespace collapsed has a terminator
  after a character that is not one (after its leading terminators it still has a
  terminator), then the collapsed text is its leading terminators, the sentences one
  after the other, and the characters after the last terminator. Every sentence, and its
  trim, lies in the collapsed text before those last characters, from the position
  \<open>sentenceStart\<close>, and ends with a terminator. For every \<open>maxSentences\<close> and every engine
  the summary is the join by one space of trimmed sentences, at the ascending positions
  of the selected ones: it is made of nothing else, so the characters after the last
  terminator are not in it, and it is empty or ends with a terminator.
\<close>

theorem trailing_text_excluded:
  assumes "hasTerminator (dropWhile isTerminator (collapseWhitespace text))"
  shows "collapseWhitespace text
           = takeWhile isTerminator (collapseWhitespace text)
               @ concat (splitSentences text) @ trailingText (collapseWhitespace text) \<and>
         (\<forall>p < length (splitSentences text).
            collapseWhitespace text
              = take (sentenceStart text p) (collapseWhitespace text)
                  @ splitSentences text ! p
                  @ drop (sentenceStart text p + length (splitSentences text ! p))
                      (collapseWhitespace text) \<and>
            sentenceStart text p + length (splitSentences text ! p)
              + length (trailingText (collapseWhitespace text))
              \<le> length (collapseWhitespace text) \<and>
            (\<exists>a b. collapseWhitespace text
                     = a @ trim (splitSentences text ! p) @ b
                         @ trailingText (collapseWhitespace text))) \<and>
         (\<forall>s \<in> set (splitSentences text). s \<noteq> [] \<and> isTerminator (last s)) \<and>
         (\<exists>ps. sorted_wrt (<) ps \<and>
               set ps = item_i ` set (selectedSentences eng text maxSentences) \<and>
               (\<forall>p \<in> set ps. p < length (splitSentences text)) \<and>
               generateExtractiveSummary eng text maxSentences
                 = joinWith '' '' (map (\<lambda>p. trim (splitSentences text ! p)) ps)) \<and>
         (generateExtractiveSummary eng text maxSentences = [] \<or>
          isTerminator (last (generateExtractiveSummary eng text maxSentences)))"
proof -
  from assms have ne: "matchSentences (collapseWhitespace text) \<noteq> []"
    by (simp add: matchSentences_nonempty_iff)
  then have split: "splitSentences text = matchSentences (collapseWhitespace text)"
    by (rule splitSentences_matched)
  have 0: "collapseWhitespace text
           = takeWhile isTerminator (collapseWhitespace text)
               @ concat (splitSentences text) @ trailingText (collapseWhitespace text)"
    using assms by (rule collapsed_decomposition)
  have 1: "\<forall>p < length (splitSentences text).
            collapseWhitespace text
              = take (sentenceStart text p) (collapseWhitespace text)
                  @ splitSentences text ! p
                  @ drop (sentenceStart text p + length (splitSentences text ! p))
                      (collapseWhitespace text) \<and>
            sentenceStart text p + length (splitSentences text ! p)
              + length (trailingText (collapseWhitespace text))
              \<le> length (collapseWhitespace text) \<and>
            (\<exists>a b. collapseWhitespace text
                     = a @ trim (splitSentences text ! p) @ b
                         @ trailingText (collapseWhitespace text))"
    using sentence_position [OF assms] by blast
  have 2: "\<forall>s \<in> set (splitSentences text). s \<noteq> [] \<and> isTerminator (last s)"
    unfolding split using matchSentences_ends by blast
  have 4: "\<exists>ps. sorted_wrt (<) ps \<and>
               set ps = item_i ` set (selectedSentences eng text maxSentences) \<and>
               (\<forall>p \<in> set ps. p < length (splitSentences text)) \<and>
               generateExtractiveSummary eng text maxSentences
                 = joinWith '' '' (map (\<lambda>p. trim (splitSentences text ! p)) ps)"
    using summary_positions [of eng "text" maxSentences] by blast
  let ?top = "topSentences eng text maxSentences"
  let ?parts = "map (\<lambda>t. trim (item_s t)) ?top"
  have 3: "generateExtractiveSummary eng text maxSentences = [] \<or>
          isTerminator (last (generateExtractiveSummary eng text maxSentences))"
  proof (cases "?top = []")
    case True
    then show ?thesis by (simp add: generateExtractiveSummary_eq)
  next
    case False
    then have "last ?top \<in> set ?top"
      by simp
    then have "item_s (last ?top) \<in> set (splitSentences text)"
      by (rule top_sentence_in_split)
    with 2 have e: "item_s (last ?top) \<noteq> []" "isTerminator (last (item_s (last ?top)))"
      by simp_all
    from e(2) have "\<not> isWhitespace (last (item_s (last ?top)))"
      by (rule terminator_not_whitespace)
    with e(1) have t: "trim (item_s (last ?top)) \<noteq> []"
      "last (trim (item_s (last ?top))) = last (item_s (last ?top))"
      using trim_keeps_last by simp_all
    have l: "last ?parts = trim (item_s (last ?top))"
      using False by (simp add: last_map)
    have "?parts \<noteq> []" using False by simp
    moreover have "last ?parts \<noteq> []" using l t(1) by simp
    ultimately have "last (joinWith '' '' ?parts) = last (last ?parts)"
      using joinWith_last by blast
    then have "last (generateExtractiveSummary eng text maxSentences)
        = last (item_s (last ?top))"
      by (simp only: generateExtractiveSummary_eq l t(2))
    with e(2) show ?thesis by simp
  qed
  from 0 1 2 3 4 show ?thesis by blast
qed

theorem trailing_text_excluded_witness:
  "hasTerminator (dropWhile isTerminator
     (collapseWhitespace ''Hello  world. How are you?!  trailing'')) \<and>
   collapseWhitespace ''Hello  world. How are you?!  trailing''
     = takeWhile isTerminator (collapseWhitespace ''Hello  world. How are you?!  trailing'')
       @ concat (splitSentences ''Hello  world. How are you?!  trailing'')
       @ trailingText (collapseWhitespace ''Hello  world. How are you?!  trailing'') \<and>
   (\<exists>a b. collapseWhitespace ''Hello  world. How are you?!  trailing''
            = a @ trim (splitSentences ''Hello  world. How are you?!  trailing'' ! 1) @ b
                @ trailingText (collapseWhitespace ''Hello  world. How are you?!  trailing'')) \<and>
   isTerminator (last (generateExtractiveSummary (sortEngine exampleEnv)
                         ''Hello  world. How are you?!  trailing'' 5)) \<and>
   collapseWhitespace ''Hello  world. How are you?!  trailing''
     = ''Hello world. How are you?! trailing'' \<and>
   splitSentences ''Hello  world. How are you?!  trailing''
     = [''Hello world.'', '' How are you?!''] \<and>
   sentenceStart ''Hello  world. How are you?!  trailing'' 1 = 12 \<and>
   trailingText (collapseWhitespace ''Hello  world. How are you?!  trailing'') = '' trailing'' \<and>
   generateExtractiveSummary (sortEngine exampleEnv) ''Hello  world. How are you?!  trailing'' 5
     = ''Hello world. How are you?!''"
proof -
  have h: "hasTerminator (dropWhile isTerminator
             (collapseWhitespace ''Hello  world. How are you?!  trailing''))"
    by code_simp
  have a: "splitSentences ''Hello  world. How are you?!  trailing''
      = [''Hello world.'', '' How are you?!'']"
    by code_simp
  have a': "collapseWhitespace ''Hello  world. How are you?!  trailing''
     = ''Hello world. How are you?! trailing''"
    by code_simp
  have a'': "sentenceStart ''Hello  world. How are you?!  trailing'' 1 = 12"
    by code_simp
  have b: "trailingText (collapseWhitespace ''Hello  world. How are you?!  trailing'')
      = '' trailing''"
    by code_simp
  have c: "generateExtractiveSummary (sortEngine exampleEnv)
      ''Hello  world. How are you?!  trailing'' 5 = ''Hello world. How are you?!''"
    by code_simp
  then have ne: "generateExtractiveSummary (sortEngine exampleEnv)
      ''Hello  world. How are you?!  trailing'' 5 \<noteq> []"
    by simp
  have l: "(1::nat) < length (splitSentences ''Hello  world. How are you?!  trailing'')"
    by code_simp
  note T = trailing_text_excluded [OF h, of "sortEngine exampleEnv" 5]
  from T have d: "collapseWhitespace ''Hello  world. How are you?!  trailing''
     = takeWhile isTerminator (collapseWhitespace ''Hello  world. How are you?!  trailing'')
       @ concat (splitSentences ''Hello  world. How are you?!  trailing'')
       @ trailingText (collapseWhitespace ''Hello  world. How are you?!  trailing'')"
    by (rule conjunct1)
  from T l have p: "\<exists>a b. collapseWhitespace ''Hello  world. How are you?!  trailing''
            = a @ trim (splitSentences ''Hello  world. How are you?!  trailing'' ! 1) @ b
                @ trailingText (collapseWhitespace ''Hello  world. How are you?!  trailing'')"
    by blast
  from T ne have e: "isTerminator (last (generateExtractiveSummary (sortEngine exampleEnv)
                         ''Hello  world. How are you?!  trailing'' 5))"
    by blast
  from h d p e a' a a'' b c show ?thesis
    by (intro conjI)
qed

text \<open>
  Claim C10 as stated asks only for a terminator somewhere in the collapsed text. In
  \<open>...wait\<close> the only terminators are at the start, where no match can begin; the pattern
  matches nothing, the whole text is the one sentence, and the characters after the last
  terminator are in the summary.
\<close>

theorem trailing_text_counterexample:
  "hasTerminator (collapseWhitespace ''...wait'') \<and>
   trailingText (collapseWhitespace ''...wait'') = ''wait'' \<and>
   splitSentences ''...wait'' = [''...wait''] \<and>
   generateExtractiveSummary (sortEngine exampleEnv) ''...wait'' 5 = ''...wait''"
  by code_simp

section \<open>Scores\<close>

text \<open>
  For a word other than \<open>constructor\<close> the table holds the count the specification
  describes, so a sentence without that word has the score of the specification, and a
  sentence of stopwords has the score 0.
\<close>

lemma countWord_other:
  assumes "w \<noteq> ''constructor''" and "orZero (getProperty freq w) = Number n"
  shows "orZero (getProperty (countWord x freq) w)
           = Number (n + (if x = w \<and> x \<notin> set stop then 1 else 0))"
  using assms by (auto simp: countWord_def getProperty_def orZero_def split: option.splits)

lemma fold_countWord:
  assumes "w \<noteq> ''constructor''" and "orZero (getProperty freq w) = Number n"
  shows "orZero (getProperty (fold countWord ws freq) w)
           = Number (n + count_list (filter (\<lambda>x. x \<notin> set stop) ws) w)"
  using assms(2)
proof (induction ws arbitrary: freq n)
  case Nil
  then show ?case by simp
next
  case (Cons x ws)
  from countWord_other [OF assms(1) Cons.prems, of x]
  have "orZero (getProperty (fold countWord ws (countWord x freq)) w)
      = Number (n + (if x = w \<and> x \<notin> set stop then 1 else 0)
                + count_list (filter (\<lambda>x. x \<notin> set stop) ws) w)"
    by (rule Cons.IH)
  then show ?case by auto
qed

lemma textFrequencies_count:
  assumes "w \<noteq> ''constructor''"
  shows "orZero (getProperty (textFrequencies text) w) = Number (specWordCount text w)"
proof -
  have "orZero (getProperty Map.empty w) = Number 0"
    using assms by (simp add: getProperty_def orZero_def)
  from fold_countWord [OF assms this] show ?thesis
    by (simp add: textFrequencies_def wordFrequencies_def specWordCount_def)
qed

lemma fold_score:
  assumes "\<forall>w \<in> set sw. orZero (getProperty freq w) = Number (c w)"
  shows "fold (\<lambda>w sc. jsAdd sc (orZero (getProperty freq w))) sw (Number a)
           = Number (a + sum_list (map c sw))"
  using assms by (induction sw arbitrary: a) (simp_all add: add.assoc)

lemma sentenceScore_spec:
  assumes "''constructor'' \<notin> set (sentenceWords s)"
  shows "sentenceScore (textFrequencies text) s = Finite (specScore text s)"
proof -
  have "\<forall>w \<in> set (sentenceWords s).
          orZero (getProperty (textFrequencies text) w) = Number (specWordCount text w)"
    using assms textFrequencies_count by metis
  from fold_score [OF this, of 0] show ?thesis
    by (simp add: sentenceScore_def specScore_def sentenceWords_def Let_def)
qed

lemma specWordCount_stop: "w \<in> set stop \<Longrightarrow> specWordCount text w = 0"
  by (simp add: specWordCount_def count_list_0_iff)

lemma constructor_not_stop: "''constructor'' \<notin> set stop"
  by (simp add: stop_def)

lemma stopword_sentence_scores_zero:
  assumes "set (sentenceWords s) \<subseteq> set stop"
  shows "sentenceScore (textFrequencies text) s = Finite 0"
proof -
  from assms constructor_not_stop have "''constructor'' \<notin> set (sentenceWords s)"
    by blast
  then have "sentenceScore (textFrequencies text) s = Finite (specScore text s)"
    by (rule sentenceScore_spec)
  moreover have "sum_list (map (specWordCount text) (sentenceWords s)) = 0"
    using assms by (auto simp: specWordCount_stop)
  ultimately show ?thesis
    by (simp add: specScore_def sentenceWords_def)
qed

text \<open>
  Claim C5. The score of a sentence should be the sum of the counts of its tokens divided
  by the greater of 5 and the number of its tokens. For a sentence with the token
  \<open>constructor\<close> the code reads the function \<open>Object\<close> from the prototype of the frequency
  table, the running score becomes a string, and the score is \<open>NaN\<close>, where the claim
  gives 2/5. (For a sentence without that token the two agree: \<open>sentenceScore_spec\<close>.)
\<close>

theorem constructor_score_not_a_number:
  "splitSentences ''The constructor runs.'' = [''The constructor runs.''] \<and>
   sentenceScore (textFrequencies ''The constructor runs.'') ''The constructor runs.'' = NaN \<and>
   specScore ''The constructor runs.'' ''The constructor runs.'' = 2 / 5"
  by code_simp

section \<open>The number of sentences\<close>

lemma joinWith_nonempty:
  "xs \<noteq> [] \<Longrightarrow> \<forall>x \<in> set xs. x \<noteq> [] \<Longrightarrow> joinWith sep xs \<noteq> []"
  by (induction sep xs rule: joinWith.induct) auto

lemma splitSentences_nonempty: "splitSentences text \<noteq> []"
  by (simp add: splitSentences_def split: list.splits)











section \<open>Merging transcripts\<close>

text \<open>
  Claim C4. Merging gives the incoming fragment when there is no transcript yet or the
  transcript is the empty string, and otherwise the transcript, one line feed, and the
  fragment; so for non-empty \<open>a\<close> and \<open>b\<close>, merging \<open>a\<close> into nothing and then \<open>b\<close> into
  the result gives \<open>a\<close>, one line feed, \<open>b\<close>.
\<close>

theorem mergeTranscript_spec:
  "mergeTranscript None incoming = incoming \<and>
   mergeTranscript (Some []) incoming = incoming \<and>
   (existing \<noteq> [] \<longrightarrow>
      mergeTranscript (Some existing) incoming = existing @ [CHR 0x0A] @ incoming) \<and>
   (a \<noteq> [] \<and> b \<noteq> [] \<longrightarrow>
      mergeTranscript (Some (mergeTranscript None a)) b = a @ [CHR 0x0A] @ b)"
  by (simp add: mergeTranscript_def)

theorem mergeTranscript_spec_witness:
  "''first'' \<noteq> [] \<and> ''second'' \<noteq> [] \<and>
   mergeTranscript (Some ''first'') ''second'' = ''first'' @ [CHR 0x0A] @ ''second'' \<and>
   mergeTranscript (Some (mergeTranscript None ''first'')) ''second''
     = ''first'' @ [CHR 0x0A] @ ''second''"
  using mergeTranscript_spec [of "''second''" "''first''" "''first''" "''second''"] by simp

section \<open>The remote summarizer never fails\<close>

lemma summarizeWithGemini_Some_iff:
  "summarizeWithGemini env t = Some s \<longleftrightarrow>
     (\<exists>k data txt. GEMINI_API_KEY env = Some k \<and> k \<noteq> [] \<and>
        fetch env (geminiUrl @ k) (requestText t) = HttpResponse True (Some data) \<and>
        candidateText data = Some (JString txt) \<and> trim txt \<noteq> [] \<and> s = trim txt)"
  unfolding summarizeWithGemini_def
  by (auto split: option.splits fetch_result.splits json.splits)

lemma summarizeWithGemini_None_iff:
  "summarizeWithGemini env t = None \<longleftrightarrow> (\<forall>s. summarizeWithGemini env t \<noteq> Some s)"
  by auto

text \<open>
  Claim C3. \<open>summarizeWithGemini\<close> returns nothing or a string for every transcript and
  never raises (its result type has no third case: every exception of the body is caught).
  It returns nothing when the credential is absent or empty, when the request is rejected,
  when the response is not a success, when its body does not parse, and when the text
  found in the body is not a string or is blank. A string it returns is not empty and is
  its own trim.
\<close>

theorem summarizeWithGemini_failsafe:
  "(summarizeWithGemini env t = None \<or> (\<exists>s. summarizeWithGemini env t = Some s)) \<and>
   (GEMINI_API_KEY env = None \<or> GEMINI_API_KEY env = Some []
      \<longrightarrow> summarizeWithGemini env t = None) \<and>
   (\<forall>k. GEMINI_API_KEY env = Some k \<and>
        fetch env (geminiUrl @ k) (requestText t) = FetchRejected
        \<longrightarrow> summarizeWithGemini env t = None) \<and>
   (\<forall>k parsed. GEMINI_API_KEY env = Some k \<and>
        fetch env (geminiUrl @ k) (requestText t) = HttpResponse False parsed
        \<longrightarrow> summarizeWithGemini env t = None) \<and>
   (\<forall>k ok. GEMINI_API_KEY env = Some k \<and>
        fetch env (geminiUrl @ k) (requestText t) = HttpResponse ok None
        \<longrightarrow> summarizeWithGemini env t = None) \<and>
   (\<forall>k ok data. GEMINI_API_KEY env = Some k \<and>
        fetch env (geminiUrl @ k) (requestText t) = HttpResponse ok (Some data) \<and>
        (\<forall>txt. candidateText data = Some (JString txt) \<longrightarrow> trim txt = [])
        \<longrightarrow> summarizeWithGemini env t = None) \<and>
   (\<forall>s. summarizeWithGemini env t = Some s \<longrightarrow> s \<noteq> [] \<and> trim s = s)"
proof -
  have a: "summarizeWithGemini env t = None \<or> (\<exists>s. summarizeWithGemini env t = Some s)"
    by auto
  have b: "GEMINI_API_KEY env = None \<or> GEMINI_API_KEY env = Some []
      \<longrightarrow> summarizeWithGemini env t = None"
    unfolding summarizeWithGemini_None_iff summarizeWithGemini_Some_iff by auto
  have c: "\<forall>k. GEMINI_API_KEY env = Some k \<and>
        fetch env (geminiUrl @ k) (requestText t) = FetchRejected
        \<longrightarrow> summarizeWithGemini env t = None"
    unfolding summarizeWithGemini_None_iff summarizeWithGemini_Some_iff by auto
  have d: "\<forall>k parsed. GEMINI_API_KEY env = Some k \<and>
        fetch env (geminiUrl @ k) (requestText t) = HttpResponse False parsed
        \<longrightarrow> summarizeWithGemini env t = None"
    unfolding summarizeWithGemini_None_iff summarizeWithGemini_Some_iff by auto
  have e: "\<forall>k ok. GEMINI_API_KEY env = Some k \<and>
        fetch env (geminiUrl @ k) (requestText t) = HttpResponse ok None
        \<longrightarrow> summarizeWithGemini env t = None"
    unfolding summarizeWithGemini_None_iff summarizeWithGemini_Some_iff by auto
  have f: "\<forall>k ok data. GEMINI_API_KEY env = Some k \<and>
        fetch env (geminiUrl @ k) (requestText t) = HttpResponse ok (Some data) \<and>
        (\<forall>txt. candidateText data = Some (JString txt) \<longrightarrow> trim txt = [])
        \<longrightarrow> summarizeWithGemini env t = None"
    unfolding summarizeWithGemini_None_iff summarizeWithGemini_Some_iff by auto
  have g: "\<forall>s. summarizeWithGemini env t = Some s \<longrightarrow> s \<noteq> [] \<and> trim s = s"
    unfolding summarizeWithGemini_Some_iff by (auto simp: trim_trim)
  from a b c d e f g show ?thesis by blast
qed

theorem summarizeWithGemini_failsafe_witness:
  "GEMINI_API_KEY exampleEnv = None \<and> summarizeWithGemini exampleEnv ''hello'' = None \<and>
   GEMINI_API_KEY (serviceEnv FetchRejected) = Some ''key'' \<and>
   fetch (serviceEnv FetchRejected) (geminiUrl @ ''key'') (requestText ''hello'') = FetchRejected \<and>
   summarizeWithGemini (serviceEnv FetchRejected) ''hello'' = None \<and>
   fetch (serviceEnv (HttpResponse False None)) (geminiUrl @ ''key'') (requestText ''hello'')
     = HttpResponse False None \<and>
   summarizeWithGemini (serviceEnv (HttpResponse False None)) ''hello'' = None \<and>
   fetch (serviceEnv (HttpResponse True None)) (geminiUrl @ ''key'') (requestText ''hello'')
     = HttpResponse True None \<and>
   summarizeWithGemini (serviceEnv (HttpResponse True None)) ''hello'' = None \<and>
   candidateText (geminiAnswer ''  '') = Some (JString ''  '') \<and> trim ''  '' = [] \<and>
   summarizeWithGemini (serviceEnv (HttpResponse True (Some (geminiAnswer ''  '')))) ''hello''
     = None \<and>
   summarizeWithGemini (serviceEnv (HttpResponse True (Some (geminiAnswer ''  - point one  ''))))
     ''hello'' = Some ''- point one'' \<and>
   ''- point one'' \<noteq> [] \<and> trim ''- point one'' = ''- point one''"
proof -
  have k: "\<And>r. GEMINI_API_KEY (serviceEnv r) = Some ''key''"
    by (simp add: serviceEnv_def)
  have f: "\<And>r u t. fetch (serviceEnv r) u t = r"
    by (simp add: serviceEnv_def)
  have n: "GEMINI_API_KEY exampleEnv = None"
    by (simp add: exampleEnv_def)
  have blank: "candidateText (geminiAnswer ''  '') = Some (JString ''  '')" "trim ''  '' = []"
    by code_simp+
  have good: "summarizeWithGemini
      (serviceEnv (HttpResponse True (Some (geminiAnswer ''  - point one  '')))) ''hello''
      = Some ''- point one''"
    by code_simp
  have w1: "summarizeWithGemini exampleEnv ''hello'' = None"
    using summarizeWithGemini_failsafe [of exampleEnv "''hello''"] n by blast
  have w2: "summarizeWithGemini (serviceEnv FetchRejected) ''hello'' = None"
    using summarizeWithGemini_failsafe [of "serviceEnv FetchRejected" "''hello''"] k f by blast
  have w3: "summarizeWithGemini (serviceEnv (HttpResponse False None)) ''hello'' = None"
    using summarizeWithGemini_failsafe [of "serviceEnv (HttpResponse False None)" "''hello''"] k f
    by blast
  have w4: "summarizeWithGemini (serviceEnv (HttpResponse True None)) ''hello'' = None"
    using summarizeWithGemini_failsafe [of "serviceEnv (HttpResponse True None)" "''hello''"] k f
    by blast
  have h5: "\<forall>txt. candidateText (geminiAnswer ''  '') = Some (JString txt) \<longrightarrow> trim txt = []"
    by (simp add: blank)
  have w5: "summarizeWithGemini (serviceEnv (HttpResponse True (Some (geminiAnswer ''  ''))))
      ''hello'' = None"
    using summarizeWithGemini_failsafe
        [of "serviceEnv (HttpResponse True (Some (geminiAnswer ''  '')))" "''hello''"] k f h5
    by blast
  have w6: "''- point one'' \<noteq> [] \<and> trim ''- point one'' = ''- point one''"
    using summarizeWithGemini_failsafe
        [of "serviceEnv (HttpResponse True (Some (geminiAnswer ''  - point one  '')))" "''hello''"]
      good by blast
  show ?thesis
    by (intro conjI k f n blank good w1 w2 w3 w4 w5 conjunct1 [OF w6] conjunct2 [OF w6])
qed

section \<open>Reading the summary\<close>




section \<open>Submitting a transcript\<close>













subsection \<open>The summary of a completed session\<close>

lemma trim_visible: "visible s \<Longrightarrow> trim s \<noteq> []"
proof -
  assume "visible s"
  then obtain c where c: "c \<in> set s" "\<not> isWhitespace c"
    by (auto simp: visible_def list_ex_iff)
  define u where "u = dropWhile isWhitespace s"
  from c have une: "u \<noteq> []"
    by (auto simp: u_def dropWhile_eq_Nil_conv)
  then have "\<not> isWhitespace (hd u)"
    unfolding u_def by (rule hd_dropWhile)
  moreover have "hd u \<in> set (rev u)"
    using une by simp
  ultimately have "dropWhile isWhitespace (rev u) \<noteq> []"
    by (auto simp: dropWhile_eq_Nil_conv)
  then show ?thesis
    by (simp add: trim_def u_def)
qed

lemma splitSentences_trim:
  assumes "visible text" and "s \<in> set (splitSentences text)"
  shows "trim s \<noteq> []"
proof (cases "matchSentences (collapseWhitespace text) = []")
  case True
  with assms(2) have "s = text"
    by (simp add: splitSentences_def)
  with assms(1) show ?thesis
    by (simp add: trim_visible)
next
  case False
  with assms(2) have "s \<in> set (matchSentences (collapseWhitespace text))"
    by (simp add: splitSentences_matched)
  then have "s \<noteq> []" and "isTerminator (last s)"
    using matchSentences_ends by blast+
  then show ?thesis
    using trim_keeps_last terminator_not_whitespace by blast
qed

lemma length_topSentences_5:
  "length (topSentences eng text 5) = min 5 (length (splitSentences text))"
proof -
  have "length (sortByScore eng (indexedSentences text)) = length (splitSentences text)"
    by (simp add: sortByScore_def length_stableSort indexedSentences_def Let_def)
  then show ?thesis
    by (auto simp: topSentences_def length_stableSort selectedSentences_def Let_def
        sliceFromStart_def min_def)
qed

lemma generateExtractiveSummary_visible:
  assumes "visible text"
  shows "generateExtractiveSummary eng text 5 \<noteq> []"
proof -
  let ?top = "topSentences eng text 5"
  have "length ?top = min 5 (length (splitSentences text))"
    by (rule length_topSentences_5)
  with splitSentences_nonempty [of "text"] have "?top \<noteq> []"
    by (cases "splitSentences text") auto
  then have a: "map (\<lambda>t. trim (item_s t)) ?top \<noteq> []"
    by simp
  have b: "\<forall>x \<in> set (map (\<lambda>t. trim (item_s t)) ?top). x \<noteq> []"
    using top_sentence_in_split [of _ eng "text" 5] splitSentences_trim [OF assms]
    by auto
  from joinWith_nonempty [OF a b, of "'' ''"] show ?thesis
    by (simp add: generateExtractiveSummary_eq)
qed

lemma mergeTranscript_visible: "visible fragment \<Longrightarrow> visible (mergeTranscript existing fragment)"
  by (auto simp: visible_def list_ex_iff mergeTranscript_def split: option.splits)

lemma summarizeWithGemini_nonempty: "summarizeWithGemini env t = Some s \<Longrightarrow> s \<noteq> []"
  by (auto simp: summarizeWithGemini_Some_iff)

lemma uploadTranscript_keeps_invariant:
  assumes inv: "completedHaveSummary db"
    and vis: "\<forall>fragment lang. parseBody (req_body req) = Some (fragment, lang) \<longrightarrow> visible fragment"
  shows "completedHaveSummary (dbAfter (uploadTranscript env req db))"
proof -
  have pending: "completedHaveSummary (db\<lparr>sessions := (sessions db)(k \<mapsto> r)\<rparr>)"
    if "summaryStatus r = Some pending" for k r
    using inv that by (auto simp: completedHaveSummary_def)
  have stored: "completedHaveSummary (db\<lparr>sessions := (sessions db)(k \<mapsto> r)\<rparr>)"
    if "summary r = Some x" "x \<noteq> []" for k r x
    using inv that by (auto simp: completedHaveSummary_def)
  have final: "orElse (summarizeWithGemini env (mergeTranscript e fragment))
                 (generateExtractiveSummary (sortEngine env) (mergeTranscript e fragment) 5) \<noteq> []"
    if "visible fragment" for e fragment
    using that generateExtractiveSummary_visible [OF mergeTranscript_visible [OF that]]
    by (auto simp: orElse_def split: option.splits)
  show ?thesis
    unfolding uploadTranscript_def dbAfter_def failed_def Let_def
    using inv vis pending stored final
    by (auto split: option.splits prod.splits)
qed

lemma submitAll_keeps_invariant:
  assumes "completedHaveSummary db"
    and "\<forall>(env, req) \<in> set rs. \<forall>fragment lang.
           parseBody (req_body req) = Some (fragment, lang) \<longrightarrow> visible fragment"
  shows "completedHaveSummary (submitAll rs db)"
  using assms
proof (induction rs arbitrary: db)
  case Nil
  then show ?case by simp
next
  case (Cons r rs)
  obtain env req where r: "r = (env, req)" by (cases r)
  from Cons.prems have step: "completedHaveSummary (dbAfter (uploadTranscript env req db))"
    by (auto simp: r intro: uploadTranscript_keeps_invariant)
  from Cons.prems(2) have rest: "\<forall>(env, req) \<in> set rs. \<forall>fragment lang.
           parseBody (req_body req) = Some (fragment, lang) \<longrightarrow> visible fragment"
    by simp
  from Cons.IH [OF step rest] show ?case
    by (simp add: r)
qed

text \<open>
  Claim C2. The invariant that a session with status \<open>completed\<close> has a non-empty summary
  does not hold of the code. A fragment of one space passes the validation (its length is
  1); with no remote summary, the fallback trims the only sentence to the empty string,
  which is stored together with \<open>completed\<close>. (The invariant is kept by submissions whose
  fragments have a character that is not whitespace: \<open>submitAll_keeps_invariant\<close>.)
\<close>

theorem completed_with_empty_summary:
  "parseBody (req_body (exampleRequest '' '')) = Some ('' '', None) \<and>
   responseOf (uploadTranscript exampleEnv (exampleRequest '' '') exampleDb)
     = Response 200 (TranscriptSaved []) \<and>
   map_option summaryStatus
     (sessions (dbAfter (uploadTranscript exampleEnv (exampleRequest '' '') exampleDb)) ''s1'')
     = Some (Some completed) \<and>
   map_option summary
     (sessions (dbAfter (uploadTranscript exampleEnv (exampleRequest '' '') exampleDb)) ''s1'')
     = Some (Some [])"
  by code_simp

end
